theory Spec2Isabelle
  imports Main
begin

section \<open>The CSS selector builder of 05-objects-tasks.js\<close>

text \<open>
  The builder creates \<^verbatim>\<open>CSSSelector\<close> objects and mutates them in place; a combination
  stores a reference to its right operand. Objects therefore live in an explicit store,
  a list indexed by addresses, and every method takes the store and returns the store
  it leaves behind together with its outcome. An address outside the store stands for
  a value that is no \<^verbatim>\<open>CSSSelector\<close> (\<^verbatim>\<open>undefined\<close>, say): calling a method on it is
  JavaScript's \<^verbatim>\<open>TypeError\<close>. Method arguments are strings, as the source documents.
\<close>

subsection \<open>Objects, store and errors\<close>

type_synonym ref = nat

record CSSSelector =
  classes :: "string list"
  attributes :: "string list"
  pseudoClasses :: "string list"
  combined :: "(string \<times> ref) list"
  tag :: string
  idValue :: string
  pseudoElementValue :: string

type_synonym store = "CSSSelector list"

datatype error = Error string | TypeError

type_synonym 'a outcome = "error + 'a"

definition singleton_message :: string where
  "singleton_message =
     ''Element, id and pseudo-element should not occur more then one time inside the selector''"

definition order_message :: string where
  "order_message =
     ''Selector parts should be arranged in the following order: element, id, class, attribute, pseudo-class, pseudo-element''"

text \<open>A string is truthy in JavaScript exactly when it is not empty.\<close>

definition truthy :: "string \<Rightarrow> bool" where
  "truthy s = (s \<noteq> [])"

definition lookup :: "store \<Rightarrow> ref \<Rightarrow> CSSSelector option" where
  "lookup h r = (if r < length h then Some (h ! r) else None)"

text \<open>The constructor's field initialisers, and \<^verbatim>\<open>new CSSSelector()\<close> at a fresh address.\<close>

definition CSSSelector_constructor :: CSSSelector where
  "CSSSelector_constructor =
     \<lparr>classes = [], attributes = [], pseudoClasses = [], combined = [],
      tag = [], idValue = [], pseudoElementValue = []\<rparr>"

definition new_CSSSelector :: "store \<Rightarrow> ref \<times> store" where
  "new_CSSSelector h = (length h, h @ [CSSSelector_constructor])"

subsection \<open>The methods of CSSSelector\<close>

definition CSSSelector_element :: "string \<Rightarrow> ref \<Rightarrow> store \<Rightarrow> ref outcome \<times> store" where
  "CSSSelector_element val this h =
     (case lookup h this of
        None \<Rightarrow> (Inl TypeError, h)
      | Some obj \<Rightarrow>
          if truthy (tag obj) then (Inl (Error singleton_message), h)
          else if truthy (idValue obj) \<or> truthy (pseudoElementValue obj)
                  \<or> length (classes obj) > 0 \<or> length (pseudoClasses obj) > 0
                  \<or> length (attributes obj) > 0
          then (Inl (Error order_message), h)
          else (Inr this, h[this := obj\<lparr>tag := val\<rparr>]))"

definition CSSSelector_id :: "string \<Rightarrow> ref \<Rightarrow> store \<Rightarrow> ref outcome \<times> store" where
  "CSSSelector_id val this h =
     (case lookup h this of
        None \<Rightarrow> (Inl TypeError, h)
      | Some obj \<Rightarrow>
          if truthy (idValue obj) then (Inl (Error singleton_message), h)
          else if truthy (pseudoElementValue obj) \<or> length (classes obj) > 0
                  \<or> length (pseudoClasses obj) > 0 \<or> length (attributes obj) > 0
          then (Inl (Error order_message), h)
          else (Inr this, h[this := obj\<lparr>idValue := ''#'' @ val\<rparr>]))"

definition CSSSelector_pseudoElement :: "string \<Rightarrow> ref \<Rightarrow> store \<Rightarrow> ref outcome \<times> store" where
  "CSSSelector_pseudoElement val this h =
     (case lookup h this of
        None \<Rightarrow> (Inl TypeError, h)
      | Some obj \<Rightarrow>
          if truthy (pseudoElementValue obj) then (Inl (Error singleton_message), h)
          else (Inr this, h[this := obj\<lparr>pseudoElementValue := ''::'' @ val\<rparr>]))"

definition CSSSelector_class :: "string \<Rightarrow> ref \<Rightarrow> store \<Rightarrow> ref outcome \<times> store" where
  "CSSSelector_class className this h =
     (case lookup h this of
        None \<Rightarrow> (Inl TypeError, h)
      | Some obj \<Rightarrow>
          if truthy (pseudoElementValue obj) \<or> length (attributes obj) > 0
             \<or> length (pseudoClasses obj) > 0
          then (Inl (Error order_message), h)
          else (Inr this, h[this := obj\<lparr>classes := classes obj @ [''.'' @ className]\<rparr>]))"

definition CSSSelector_pseudoClass :: "string \<Rightarrow> ref \<Rightarrow> store \<Rightarrow> ref outcome \<times> store" where
  "CSSSelector_pseudoClass name this h =
     (case lookup h this of
        None \<Rightarrow> (Inl TypeError, h)
      | Some obj \<Rightarrow>
          if truthy (pseudoElementValue obj) then (Inl (Error order_message), h)
          else (Inr this,
                h[this := obj\<lparr>pseudoClasses := pseudoClasses obj @ ['':'' @ name]\<rparr>]))"

definition CSSSelector_attr :: "string \<Rightarrow> ref \<Rightarrow> store \<Rightarrow> ref outcome \<times> store" where
  "CSSSelector_attr attr this h =
     (case lookup h this of
        None \<Rightarrow> (Inl TypeError, h)
      | Some obj \<Rightarrow>
          if truthy (pseudoElementValue obj) \<or> length (pseudoClasses obj) > 0
          then (Inl (Error order_message), h)
          else (Inr this,
                h[this := obj\<lparr>attributes := attributes obj @ [''['' @ attr @ '']'']\<rparr>]))"

text \<open>\<^verbatim>\<open>combineWith\<close> pushes the pair of the combinator and the reference it was given.\<close>

definition CSSSelector_combineWith ::
  "string \<Rightarrow> ref \<Rightarrow> ref \<Rightarrow> store \<Rightarrow> ref outcome \<times> store" where
  "CSSSelector_combineWith combinator selector this h =
     (case lookup h this of
        None \<Rightarrow> (Inl TypeError, h)
      | Some obj \<Rightarrow>
          (Inr this, h[this := obj\<lparr>combined := combined obj @ [(combinator, selector)]\<rparr>]))"

text \<open>
  \<^verbatim>\<open>stringify\<close> calls itself on every combined selector, through references, so it
  need not return. The model carries fuel that bounds the depth of the calls: \<open>None\<close>
  is a run that needs more depth than the fuel allows. The loop over \<^verbatim>\<open>this.combined\<close>
  takes the recursive call as a parameter; an exception of a call ends the loop.
\<close>

fun forEach_combined ::
  "(ref \<Rightarrow> store \<Rightarrow> string outcome option \<times> store) \<Rightarrow> (string \<times> ref) list \<Rightarrow> string \<Rightarrow> store
     \<Rightarrow> string outcome option \<times> store" where
  "forEach_combined call [] result h = (Some (Inr result), h)"
| "forEach_combined call (selector # rest) result h =
     (case call (snd selector) h of
        (None, h') \<Rightarrow> (None, h')
      | (Some (Inl e), h') \<Rightarrow> (Some (Inl e), h')
      | (Some (Inr s), h') \<Rightarrow>
          forEach_combined call rest (result @ '' '' @ fst selector @ '' '' @ s) h')"

primrec CSSSelector_stringify :: "nat \<Rightarrow> ref \<Rightarrow> store \<Rightarrow> string outcome option \<times> store" where
  "CSSSelector_stringify 0 this h = (None, h)"
| "CSSSelector_stringify (Suc fuel) this h =
     (case lookup h this of
        None \<Rightarrow> (Some (Inl TypeError), h)
      | Some obj \<Rightarrow>
          (let result = tag obj @ idValue obj;
               result = foldl (\<lambda>result className. result @ className) result (classes obj);
               result = foldl (\<lambda>result attribute. result @ attribute) result (attributes obj);
               result = foldl (\<lambda>result pseudoClass. result @ pseudoClass) result
                          (pseudoClasses obj)
           in case forEach_combined (CSSSelector_stringify fuel) (combined obj) result h of
                (None, h') \<Rightarrow> (None, h')
              | (Some (Inl e), h') \<Rightarrow> (Some (Inl e), h')
              | (Some (Inr result), h') \<Rightarrow>
                  (case lookup h' this of
                     None \<Rightarrow> (Some (Inl TypeError), h')
                   | Some obj' \<Rightarrow> (Some (Inr (result @ pseudoElementValue obj')), h'))))"

subsection \<open>The facade cssSelectorBuilder\<close>

text \<open>Each entry point but \<^verbatim>\<open>combine\<close> constructs a selector, calls one method on it and
  returns it; an exception of the method would leave the entry point. The field
  \<^verbatim>\<open>stringValue\<close> of the facade is never read or written and has no part in the model.\<close>

definition cssSelectorBuilder_element :: "string \<Rightarrow> store \<Rightarrow> ref outcome \<times> store" where
  "cssSelectorBuilder_element val h =
     (case new_CSSSelector h of
        (selector, h1) \<Rightarrow>
          (case CSSSelector_element val selector h1 of
             (Inl e, h2) \<Rightarrow> (Inl e, h2)
           | (Inr _, h2) \<Rightarrow> (Inr selector, h2)))"

definition cssSelectorBuilder_id :: "string \<Rightarrow> store \<Rightarrow> ref outcome \<times> store" where
  "cssSelectorBuilder_id val h =
     (case new_CSSSelector h of
        (selector, h1) \<Rightarrow>
          (case CSSSelector_id val selector h1 of
             (Inl e, h2) \<Rightarrow> (Inl e, h2)
           | (Inr _, h2) \<Rightarrow> (Inr selector, h2)))"

definition cssSelectorBuilder_class :: "string \<Rightarrow> store \<Rightarrow> ref outcome \<times> store" where
  "cssSelectorBuilder_class val h =
     (case new_CSSSelector h of
        (selector, h1) \<Rightarrow>
          (case CSSSelector_class val selector h1 of
             (Inl e, h2) \<Rightarrow> (Inl e, h2)
           | (Inr _, h2) \<Rightarrow> (Inr selector, h2)))"

definition cssSelectorBuilder_attr :: "string \<Rightarrow> store \<Rightarrow> ref outcome \<times> store" where
  "cssSelectorBuilder_attr val h =
     (case new_CSSSelector h of
        (selector, h1) \<Rightarrow>
          (case CSSSelector_attr val selector h1 of
             (Inl e, h2) \<Rightarrow> (Inl e, h2)
           | (Inr _, h2) \<Rightarrow> (Inr selector, h2)))"

definition cssSelectorBuilder_pseudoClass :: "string \<Rightarrow> store \<Rightarrow> ref outcome \<times> store" where
  "cssSelectorBuilder_pseudoClass val h =
     (case new_CSSSelector h of
        (selector, h1) \<Rightarrow>
          (case CSSSelector_pseudoClass val selector h1 of
             (Inl e, h2) \<Rightarrow> (Inl e, h2)
           | (Inr _, h2) \<Rightarrow> (Inr selector, h2)))"

definition cssSelectorBuilder_pseudoElement :: "string \<Rightarrow> store \<Rightarrow> ref outcome \<times> store" where
  "cssSelectorBuilder_pseudoElement val h =
     (case new_CSSSelector h of
        (selector, h1) \<Rightarrow>
          (case CSSSelector_pseudoElement val selector h1 of
             (Inl e, h2) \<Rightarrow> (Inl e, h2)
           | (Inr _, h2) \<Rightarrow> (Inr selector, h2)))"

definition cssSelectorBuilder_combine ::
  "ref \<Rightarrow> string \<Rightarrow> ref \<Rightarrow> store \<Rightarrow> ref outcome \<times> store" where
  "cssSelectorBuilder_combine selector1 combinator selector2 h =
     (case CSSSelector_combineWith combinator selector2 selector1 h of
        (Inl e, h1) \<Rightarrow> (Inl e, h1)
      | (Inr _, h1) \<Rightarrow> (Inr selector1, h1))"

text \<open>A chain of calls \<^verbatim>\<open>a.m1(..).m2(..)\<close>: an exception ends the chain.\<close>

definition chain ::
  "'a outcome \<times> store \<Rightarrow> ('a \<Rightarrow> store \<Rightarrow> 'b outcome \<times> store) \<Rightarrow> 'b outcome \<times> store" where
  "chain m f = (case m of (Inl e, h) \<Rightarrow> (Inl e, h) | (Inr r, h) \<Rightarrow> f r h)"

subsection \<open>The vocabulary of the specification\<close>

text \<open>The six kinds of fragment, the method that adds each, and the canonical order
  element, id, class, attribute, pseudo-class, pseudo-element.\<close>

datatype kind = Element | Id | Class | Attribute | PseudoClass | PseudoElement

fun add_fragment :: "kind \<Rightarrow> string \<Rightarrow> ref \<Rightarrow> store \<Rightarrow> ref outcome \<times> store" where
  "add_fragment Element = CSSSelector_element"
| "add_fragment Id = CSSSelector_id"
| "add_fragment Class = CSSSelector_class"
| "add_fragment Attribute = CSSSelector_attr"
| "add_fragment PseudoClass = CSSSelector_pseudoClass"
| "add_fragment PseudoElement = CSSSelector_pseudoElement"

fun rank :: "kind \<Rightarrow> nat" where
  "rank Element = 0"
| "rank Id = 1"
| "rank Class = 2"
| "rank Attribute = 3"
| "rank PseudoClass = 4"
| "rank PseudoElement = 5"

text \<open>The most specific kind present on an instance: the last one, in the canonical
  order, of which the instance holds a fragment.\<close>

definition most_specific :: "CSSSelector \<Rightarrow> kind option" where
  "most_specific obj =
     (if pseudoElementValue obj \<noteq> [] then Some PseudoElement
      else if pseudoClasses obj \<noteq> [] then Some PseudoClass
      else if attributes obj \<noteq> [] then Some Attribute
      else if classes obj \<noteq> [] then Some Class
      else if idValue obj \<noteq> [] then Some Id
      else if tag obj \<noteq> [] then Some Element
      else None)"

definition earlier_than_present :: "kind \<Rightarrow> CSSSelector \<Rightarrow> bool" where
  "earlier_than_present k obj =
     (case most_specific obj of None \<Rightarrow> False | Some k' \<Rightarrow> rank k < rank k')"

text \<open>The singleton kinds, and whether the instance already holds the fragment of one.\<close>

fun singleton_present :: "kind \<Rightarrow> CSSSelector \<Rightarrow> bool" where
  "singleton_present Element obj = (tag obj \<noteq> [])"
| "singleton_present Id obj = (idValue obj \<noteq> [])"
| "singleton_present PseudoElement obj = (pseudoElementValue obj \<noteq> [])"
| "singleton_present k obj = False"

text \<open>The output the specification gives for \<^verbatim>\<open>stringify\<close>, from the fields of the instance
  and the strings \<open>others\<close> of its combined selectors, one for each entry.\<close>

definition spec_segment :: "string \<Rightarrow> string \<Rightarrow> string" where
  "spec_segment combinator other = '' '' @ combinator @ '' '' @ other"

definition spec_stringify :: "CSSSelector \<Rightarrow> string list \<Rightarrow> string" where
  "spec_stringify obj others =
     tag obj @ idValue obj @ concat (classes obj) @ concat (attributes obj)
     @ concat (pseudoClasses obj)
     @ concat (map2 spec_segment (map fst (combined obj)) others)
     @ pseudoElementValue obj"

text \<open>The fields of an instance after a fragment of kind \<open>k\<close> was added, as the
  specification's table of operations gives them.\<close>

fun with_fragment :: "kind \<Rightarrow> string \<Rightarrow> CSSSelector \<Rightarrow> CSSSelector" where
  "with_fragment Element v obj = obj\<lparr>tag := v\<rparr>"
| "with_fragment Id v obj = obj\<lparr>idValue := ''#'' @ v\<rparr>"
| "with_fragment Class v obj = obj\<lparr>classes := classes obj @ [''.'' @ v]\<rparr>"
| "with_fragment Attribute v obj = obj\<lparr>attributes := attributes obj @ [''['' @ v @ '']'']\<rparr>"
| "with_fragment PseudoClass v obj = obj\<lparr>pseudoClasses := pseudoClasses obj @ ['':'' @ v]\<rparr>"
| "with_fragment PseudoElement v obj = obj\<lparr>pseudoElementValue := ''::'' @ v\<rparr>"

text \<open>What the specification's output holds before and after the segment of the entry
  \<open>i\<close> of the combination list.\<close>

definition rendered_before :: "CSSSelector \<Rightarrow> string list \<Rightarrow> nat \<Rightarrow> string" where
  "rendered_before obj others i =
     tag obj @ idValue obj @ concat (classes obj) @ concat (attributes obj)
     @ concat (pseudoClasses obj)
     @ concat (map2 spec_segment (map fst (take i (combined obj))) (take i others))"

definition rendered_after :: "CSSSelector \<Rightarrow> string list \<Rightarrow> nat \<Rightarrow> string" where
  "rendered_after obj others i =
     concat (map2 spec_segment (map fst (drop (Suc i) (combined obj))) (drop (Suc i) others))
     @ pseudoElementValue obj"

text \<open>The graph of the references: an edge leads from a selector to each selector in its
  combination list. In a closed store every such reference is a selector of the store.\<close>

definition edges :: "store \<Rightarrow> (ref \<times> ref) set" where
  "edges h = {(r, r'). r < length h \<and> r' \<in> snd ` set (combined (h ! r))}"

text \<open>The part of the graph that a selector reaches: the edges that leave a selector
  reachable from \<open>this\<close>.\<close>

definition edges_from :: "store \<Rightarrow> ref \<Rightarrow> (ref \<times> ref) set" where
  "edges_from h this = {(r, r'). (r, r') \<in> edges h \<and> (this, r) \<in> (edges h)\<^sup>*}"

definition closed_store :: "store \<Rightarrow> bool" where
  "closed_store h = list_all (\<lambda>obj. list_all (\<lambda>entry. snd entry < length h) (combined obj)) h"

subsection \<open>Example programs\<close>

text \<open>\<^verbatim>\<open>builder.class('a')\<close>, \<^verbatim>\<open>builder.element('a').id('x')\<close> and \<^verbatim>\<open>builder.element('')\<close>,
  each run in the empty store.\<close>

definition example_class :: "ref outcome \<times> store" where
  "example_class = cssSelectorBuilder_class ''a'' []"

definition example_element_id :: "ref outcome \<times> store" where
  "example_element_id = chain (cssSelectorBuilder_element ''a'' []) (CSSSelector_id ''x'')"

definition example_empty_element :: "ref outcome \<times> store" where
  "example_empty_element = cssSelectorBuilder_element [] []"

text \<open>\<^verbatim>\<open>builder.combine(builder.element('a'), ' ', builder.element('b'))\<close>.\<close>

definition example_space :: "ref outcome \<times> store" where
  "example_space =
     chain (cssSelectorBuilder_element ''a'' []) (\<lambda>a h.
     chain (cssSelectorBuilder_element ''b'' h) (\<lambda>b.
     cssSelectorBuilder_combine a '' '' b))"

text \<open>\<^verbatim>\<open>l = builder.element('div'); r = builder.element('p')\<close>: two selectors, at the
  addresses 0 and 1, not yet combined.\<close>

definition example_div_p :: "ref outcome \<times> store" where
  "example_div_p =
     chain (cssSelectorBuilder_element ''div'' []) (\<lambda>l. cssSelectorBuilder_element ''p'')"

subsection \<open>Basic facts\<close>

lemma lookup_Some_iff: "lookup h r = Some obj \<longleftrightarrow> r < length h \<and> obj = h ! r"
  by (auto simp: lookup_def)

lemmas method_defs =
  CSSSelector_element_def CSSSelector_id_def CSSSelector_class_def
  CSSSelector_attr_def CSSSelector_pseudoClass_def CSSSelector_pseudoElement_def

lemmas builder_defs =
  cssSelectorBuilder_element_def cssSelectorBuilder_id_def cssSelectorBuilder_class_def
  cssSelectorBuilder_attr_def cssSelectorBuilder_pseudoClass_def
  cssSelectorBuilder_pseudoElement_def new_CSSSelector_def

lemma lookup_fresh [simp]: "lookup (h @ [obj]) (length h) = Some obj"
  by (simp add: lookup_def)

lemma update_fresh [simp]: "(h @ [obj])[length h := obj'] = h @ [obj']"
  by (simp add: list_update_append)

lemma messages_differ: "singleton_message \<noteq> order_message"
  by (simp add: singleton_message_def order_message_def)

lemma example_class_eq:
  "example_class = (Inr 0, [CSSSelector_constructor\<lparr>classes := [''.a'']\<rparr>])"
  by (simp add: example_class_def builder_defs CSSSelector_class_def
      CSSSelector_constructor_def truthy_def lookup_def)

lemma example_element_id_eq:
  "example_element_id = (Inr 0, [CSSSelector_constructor\<lparr>tag := ''a'', idValue := ''#x''\<rparr>])"
  by (simp add: example_element_id_def chain_def builder_defs CSSSelector_element_def
      CSSSelector_id_def CSSSelector_constructor_def truthy_def lookup_def)

lemma example_empty_element_eq:
  "example_empty_element = (Inr 0, [CSSSelector_constructor])"
  by (simp add: example_empty_element_def builder_defs CSSSelector_element_def
      CSSSelector_constructor_def truthy_def lookup_def)

subsection \<open>The guards of the fragment methods\<close>

text \<open>
  C2, as the code has it. On a selector \<open>obj\<close> at \<open>this\<close>, the method adding a fragment
  of kind \<open>k\<close> throws the out-of-order error exactly when \<open>k\<close> is strictly earlier in the
  canonical order than the most specific kind present on the instance and the instance
  does not already hold the singleton fragment of \<open>k\<close> itself; when it does hold it (a
  second \<^verbatim>\<open>element\<close> or \<^verbatim>\<open>id\<close>), the duplicate check runs first and its error is the
  one thrown. In every other case no ordering error is raised.
\<close>

theorem order_guard:
  assumes "lookup h this = Some obj"
  shows "(fst (add_fragment k v this h) = Inl (Error order_message))
           = (earlier_than_present k obj \<and> \<not> singleton_present k obj)
         \<and> (fst (add_fragment k v this h) = Inl (Error singleton_message))
           = singleton_present k obj"
  using assms
  by (cases k)
    (auto simp: method_defs earlier_than_present_def most_specific_def truthy_def
      singleton_message_def order_message_def split: if_splits)

theorem order_guard_witness:
  "lookup (snd example_class) 0 = Some (CSSSelector_constructor\<lparr>classes := [''.a'']\<rparr>)
   \<and> fst (add_fragment Element ''div'' 0 (snd example_class)) = Inl (Error order_message)
   \<and> earlier_than_present Element (CSSSelector_constructor\<lparr>classes := [''.a'']\<rparr>)"
  using order_guard [of "snd example_class" 0 "CSSSelector_constructor\<lparr>classes := [''.a'']\<rparr>"
      Element "''div''"]
  by (simp add: example_class_eq lookup_def CSSSelector_constructor_def
      CSSSelector_element_def truthy_def)

text \<open>
  C2 as stated fails after \<^verbatim>\<open>builder.element('a').id('x')\<close>: the kind element is strictly
  earlier than id, the most specific kind present, yet \<^verbatim>\<open>element('b')\<close> throws the
  duplicate-singleton error and not the out-of-order error.
\<close>

theorem order_guard_counterexample:
  "most_specific (snd example_element_id ! 0) = Some Id
   \<and> earlier_than_present Element (snd example_element_id ! 0)
   \<and> fst (CSSSelector_element ''b'' 0 (snd example_element_id)) = Inl (Error singleton_message)
   \<and> fst (CSSSelector_element ''b'' 0 (snd example_element_id)) \<noteq> Inl (Error order_message)"
  by (simp add: example_element_id_eq CSSSelector_element_def lookup_def truthy_def
      CSSSelector_constructor_def earlier_than_present_def most_specific_def messages_differ)

text \<open>
  C3 at the failing input \<^verbatim>\<open>builder.element('')\<close> followed by \<^verbatim>\<open>element('div')\<close> on the
  same instance: the second call of \<^verbatim>\<open>element\<close> returns the instance, with the tag
  overwritten, and throws nothing.
\<close>

theorem second_element_after_empty_name:
  "CSSSelector_element ''div'' 0 (snd example_empty_element)
     = (Inr 0, [CSSSelector_constructor\<lparr>tag := ''div''\<rparr>])"
  by (simp add: example_empty_element_eq CSSSelector_element_def lookup_def truthy_def
      CSSSelector_constructor_def)

text \<open>
  C9. Presence of a singleton is the truthiness of the stored string. After
  \<^verbatim>\<open>cssSelectorBuilder.element('')\<close> the tag is the empty string, so a further
  \<^verbatim>\<open>element(v)\<close> on the instance throws nothing and overwrites the tag with \<open>v\<close>;
  \<^verbatim>\<open>id('')\<close> and \<^verbatim>\<open>pseudoElement('')\<close> store \<^verbatim>\<open>'#'\<close> and \<^verbatim>\<open>'::'\<close>, and a second call of
  \<^verbatim>\<open>id\<close> or \<^verbatim>\<open>pseudoElement\<close> then throws the duplicate-singleton error.
\<close>

theorem singleton_presence_is_truthiness:
  "chain (cssSelectorBuilder_element [] h) (CSSSelector_element v)
     = (Inr (length h), h @ [CSSSelector_constructor\<lparr>tag := v\<rparr>])
   \<and> cssSelectorBuilder_id [] h = (Inr (length h), h @ [CSSSelector_constructor\<lparr>idValue := ''#''\<rparr>])
   \<and> chain (cssSelectorBuilder_id [] h) (CSSSelector_id v)
     = (Inl (Error singleton_message), h @ [CSSSelector_constructor\<lparr>idValue := ''#''\<rparr>])
   \<and> cssSelectorBuilder_pseudoElement [] h
     = (Inr (length h), h @ [CSSSelector_constructor\<lparr>pseudoElementValue := ''::''\<rparr>])
   \<and> chain (cssSelectorBuilder_pseudoElement [] h) (CSSSelector_pseudoElement v)
     = (Inl (Error singleton_message),
        h @ [CSSSelector_constructor\<lparr>pseudoElementValue := ''::''\<rparr>])"
  by (simp add: chain_def builder_defs method_defs truthy_def CSSSelector_constructor_def)

text \<open>
  C6. A fragment method that throws (the duplicate-singleton error, the out-of-order
  error) leaves the store, and so every field of the instance, as it found it.
\<close>

theorem error_atomicity:
  "fst (add_fragment k v this h) = Inl e \<Longrightarrow> snd (add_fragment k v this h) = h"
  by (cases k) (auto simp: method_defs split: option.splits if_splits)

theorem error_atomicity_witness:
  "fst (add_fragment Element ''div'' 0 (snd example_class)) = Inl (Error order_message)
   \<and> snd (add_fragment Element ''div'' 0 (snd example_class)) = snd example_class"
  using error_atomicity [of Element "''div''" 0 "snd example_class" "Error order_message"]
  by (simp add: example_class_eq CSSSelector_element_def lookup_def truthy_def
      CSSSelector_constructor_def)

subsection \<open>The facade\<close>

text \<open>
  C5. Every entry point of the facade but \<^verbatim>\<open>combine\<close>, called in any store, the empty
  one too, throws nothing and returns a new address, one past the store it was
  given, that holds a selector with that one fragment and nothing else; the selectors
  of the given store stay as they are. \<^verbatim>\<open>combine(left, combinator, right)\<close> on a selector
  \<open>left\<close> appends the pair of the combinator and \<open>right\<close> to the combination list of
  \<open>left\<close>, whatever the fragments of the two are and whatever \<open>right\<close> is, throws nothing
  and returns \<open>left\<close>.
\<close>

theorem facade_contract:
  "cssSelectorBuilder_element v h
       = (Inr (length h), h @ [CSSSelector_constructor\<lparr>tag := v\<rparr>])
   \<and> cssSelectorBuilder_id v h
       = (Inr (length h), h @ [CSSSelector_constructor\<lparr>idValue := ''#'' @ v\<rparr>])
   \<and> cssSelectorBuilder_class v h
       = (Inr (length h), h @ [CSSSelector_constructor\<lparr>classes := [''.'' @ v]\<rparr>])
   \<and> cssSelectorBuilder_attr v h
       = (Inr (length h), h @ [CSSSelector_constructor\<lparr>attributes := [''['' @ v @ '']'']\<rparr>])
   \<and> cssSelectorBuilder_pseudoClass v h
       = (Inr (length h), h @ [CSSSelector_constructor\<lparr>pseudoClasses := ['':'' @ v]\<rparr>])
   \<and> cssSelectorBuilder_pseudoElement v h
       = (Inr (length h), h @ [CSSSelector_constructor\<lparr>pseudoElementValue := ''::'' @ v\<rparr>])
   \<and> lookup h (length h) = None
   \<and> (lookup h left = Some obj \<longrightarrow>
        cssSelectorBuilder_combine left c right h
          = (Inr left, h[left := obj\<lparr>combined := combined obj @ [(c, right)]\<rparr>]))"
proof -
  have "cssSelectorBuilder_combine left c right h
          = (Inr left, h[left := obj\<lparr>combined := combined obj @ [(c, right)]\<rparr>])"
    if "lookup h left = Some obj"
    using that by (simp add: cssSelectorBuilder_combine_def CSSSelector_combineWith_def)
  moreover have "lookup h (length h) = None"
    by (simp add: lookup_def)
  moreover have "cssSelectorBuilder_element v h
       = (Inr (length h), h @ [CSSSelector_constructor\<lparr>tag := v\<rparr>])"
    by (simp add: builder_defs CSSSelector_element_def truthy_def CSSSelector_constructor_def)
  moreover have "cssSelectorBuilder_id v h
       = (Inr (length h), h @ [CSSSelector_constructor\<lparr>idValue := ''#'' @ v\<rparr>])"
    by (simp add: builder_defs CSSSelector_id_def truthy_def CSSSelector_constructor_def)
  moreover have "cssSelectorBuilder_class v h
       = (Inr (length h), h @ [CSSSelector_constructor\<lparr>classes := [''.'' @ v]\<rparr>])"
    by (simp add: builder_defs CSSSelector_class_def truthy_def CSSSelector_constructor_def)
  moreover have "cssSelectorBuilder_attr v h
       = (Inr (length h), h @ [CSSSelector_constructor\<lparr>attributes := [''['' @ v @ '']'']\<rparr>])"
    by (simp add: builder_defs CSSSelector_attr_def truthy_def CSSSelector_constructor_def)
  moreover have "cssSelectorBuilder_pseudoClass v h
       = (Inr (length h), h @ [CSSSelector_constructor\<lparr>pseudoClasses := ['':'' @ v]\<rparr>])"
    by (simp add: builder_defs CSSSelector_pseudoClass_def truthy_def CSSSelector_constructor_def)
  moreover have "cssSelectorBuilder_pseudoElement v h
       = (Inr (length h), h @ [CSSSelector_constructor\<lparr>pseudoElementValue := ''::'' @ v\<rparr>])"
    by (simp add: builder_defs CSSSelector_pseudoElement_def truthy_def
        CSSSelector_constructor_def)
  ultimately show ?thesis
    by blast
qed

text \<open>The first call of a program, in the empty store, and \<^verbatim>\<open>combine\<close> and a further entry
  point in the store that \<^verbatim>\<open>builder.element('a').id('x')\<close> leaves.\<close>

theorem facade_contract_witness:
  "cssSelectorBuilder_attr ''href'' []
     = (Inr 0, [CSSSelector_constructor\<lparr>attributes := [''[href]'']\<rparr>])
   \<and> cssSelectorBuilder_element ''div'' []
     = (Inr 0, [CSSSelector_constructor\<lparr>tag := ''div''\<rparr>])
   \<and> lookup (snd example_element_id) 0
     = Some (CSSSelector_constructor\<lparr>tag := ''a'', idValue := ''#x''\<rparr>)
   \<and> cssSelectorBuilder_combine 0 ''+'' 0 (snd example_element_id)
     = (Inr 0, [CSSSelector_constructor\<lparr>tag := ''a'', idValue := ''#x'', combined := [(''+'', 0)]\<rparr>])
   \<and> cssSelectorBuilder_class ''c'' (snd example_element_id)
     = (Inr 1, [CSSSelector_constructor\<lparr>tag := ''a'', idValue := ''#x''\<rparr>,
                CSSSelector_constructor\<lparr>classes := [''.c'']\<rparr>])"
proof -
  have "cssSelectorBuilder_attr ''href'' []
     = (Inr 0, [CSSSelector_constructor\<lparr>attributes := [''[href]'']\<rparr>])"
    using facade_contract [of "''href''" "[]"] by simp
  moreover have "cssSelectorBuilder_element ''div'' []
     = (Inr 0, [CSSSelector_constructor\<lparr>tag := ''div''\<rparr>])"
    using facade_contract [of "''div''" "[]"] by simp
  moreover have "lookup (snd example_element_id) 0
     = Some (CSSSelector_constructor\<lparr>tag := ''a'', idValue := ''#x''\<rparr>)
   \<and> cssSelectorBuilder_combine 0 ''+'' 0 (snd example_element_id)
     = (Inr 0, [CSSSelector_constructor\<lparr>tag := ''a'', idValue := ''#x'', combined := [(''+'', 0)]\<rparr>])
   \<and> cssSelectorBuilder_class ''c'' (snd example_element_id)
     = (Inr 1, [CSSSelector_constructor\<lparr>tag := ''a'', idValue := ''#x''\<rparr>,
                CSSSelector_constructor\<lparr>classes := [''.c'']\<rparr>])"
    using facade_contract [of "''c''" "snd example_element_id" 0
        "CSSSelector_constructor\<lparr>tag := ''a'', idValue := ''#x''\<rparr>" "''+''" 0]
    by (simp add: example_element_id_eq lookup_def CSSSelector_constructor_def)
  ultimately show ?thesis
    by blast
qed

subsection \<open>Facts about stringify\<close>

lemma foldl_append_concat: "foldl (\<lambda>result x. result @ x) acc xs = acc @ concat xs"
  by (induction xs arbitrary: acc) auto

lemma forEach_combined_store:
  assumes "\<And>r. snd (call r h) = h"
  shows "snd (forEach_combined call xs res h) = h"
proof (induction xs arbitrary: res)
  case Nil
  show ?case by simp
next
  case (Cons x xs)
  obtain a where a: "call (snd x) h = (a, h)"
    using assms [of "snd x"] by (cases "call (snd x) h") simp
  show ?case
    using Cons.IH by (simp add: a split: option.splits sum.splits)
qed

lemma stringify_store: "snd (CSSSelector_stringify n this h) = h"
proof (induction n arbitrary: this)
  case 0
  show ?case by simp
next
  case (Suc n)
  show ?case
  proof (cases "lookup h this")
    case None
    then show ?thesis by simp
  next
    case (Some obj)
    have "snd (forEach_combined (CSSSelector_stringify n) (combined obj) res h) = h" for res
      by (rule forEach_combined_store) (rule Suc.IH)
    then obtain a where
      "forEach_combined (CSSSelector_stringify n) (combined obj)
         (tag obj @ idValue obj @ concat (classes obj) @ concat (attributes obj)
           @ concat (pseudoClasses obj)) h = (a, h)"
      by (metis prod.collapse)
    then show ?thesis
      using Some
      by (simp add: Let_def foldl_append_concat split: option.splits sum.splits)
  qed
qed

lemma forEach_combined_Cons_fst:
  assumes "\<And>r. snd (call r h) = h"
  shows "fst (forEach_combined call (x # xs) res h) =
    (case fst (call (snd x) h) of
       None \<Rightarrow> None
     | Some (Inl e) \<Rightarrow> Some (Inl e)
     | Some (Inr s) \<Rightarrow> fst (forEach_combined call xs (res @ spec_segment (fst x) s) h))"
proof -
  obtain a where a: "call (snd x) h = (a, h)"
    using assms [of "snd x"] by (cases "call (snd x) h") simp
  show ?thesis
    by (simp add: a spec_segment_def split: option.splits sum.splits)
qed

lemma stringify_Suc_fst:
  "fst (CSSSelector_stringify (Suc n) this h) =
    (case lookup h this of
       None \<Rightarrow> Some (Inl TypeError)
     | Some obj \<Rightarrow>
        (case fst (forEach_combined (CSSSelector_stringify n) (combined obj)
                (tag obj @ idValue obj @ concat (classes obj) @ concat (attributes obj)
                  @ concat (pseudoClasses obj)) h) of
           None \<Rightarrow> None
         | Some (Inl e) \<Rightarrow> Some (Inl e)
         | Some (Inr s) \<Rightarrow> Some (Inr (s @ pseudoElementValue obj))))"
proof (cases "lookup h this")
  case None
  then show ?thesis by simp
next
  case (Some obj)
  have "snd (forEach_combined (CSSSelector_stringify n) (combined obj) res h) = h" for res
    by (rule forEach_combined_store) (rule stringify_store)
  then obtain a where
    "forEach_combined (CSSSelector_stringify n) (combined obj)
       (tag obj @ idValue obj @ concat (classes obj) @ concat (attributes obj)
         @ concat (pseudoClasses obj)) h = (a, h)"
    by (metis prod.collapse)
  then show ?thesis
    using Some
    by (simp add: Let_def foldl_append_concat split: option.splits sum.splits)
qed

lemma forEach_combined_Inr:
  assumes "\<And>r. snd (call r h) = h"
  shows "fst (forEach_combined call xs res h) = Some (Inr s) \<longleftrightarrow>
    (\<exists>ss. list_all2 (\<lambda>x t. fst (call (snd x) h) = Some (Inr t)) xs ss
       \<and> s = res @ concat (map2 spec_segment (map fst xs) ss))"
proof (induction xs arbitrary: res)
  case Nil
  show ?case by auto
next
  case (Cons x xs)
  show ?case
    by (auto simp: forEach_combined_Cons_fst [of call h, OF assms] Cons.IH list_all2_Cons1
        simp del: forEach_combined.simps split: option.splits sum.splits)
qed

lemma forEach_combined_mono:
  assumes "\<And>r. snd (call r h) = h" and "\<And>r. snd (call' r h) = h"
    and "\<And>r y. fst (call r h) = Some y \<Longrightarrow> fst (call' r h) = Some y"
    and "fst (forEach_combined call xs res h) = Some y"
  shows "fst (forEach_combined call' xs res h) = Some y"
  using assms(4)
proof (induction xs arbitrary: res)
  case Nil
  then show ?case by simp
next
  case (Cons x xs)
  then show ?case
    by (auto simp: forEach_combined_Cons_fst [of call h, OF assms(1)] forEach_combined_Cons_fst [of call' h, OF assms(2)]
        simp del: forEach_combined.simps split: option.splits sum.splits dest: assms(3))
qed

lemma stringify_mono_Suc:
  "fst (CSSSelector_stringify n this h) = Some y \<Longrightarrow> fst (CSSSelector_stringify (Suc n) this h) = Some y"
proof (induction n arbitrary: this y)
  case 0
  then show ?case by simp
next
  case (Suc n)
  have step: "fst (forEach_combined (CSSSelector_stringify n) xs res h) = Some z \<Longrightarrow>
      fst (forEach_combined (CSSSelector_stringify (Suc n)) xs res h) = Some z" for xs res z
    by (rule forEach_combined_mono [where call = "CSSSelector_stringify n"])
      (simp_all only: stringify_store Suc.IH)
  from Suc.prems show ?case
    unfolding stringify_Suc_fst [of "Suc n"] stringify_Suc_fst [of n]
    by (auto split: option.splits sum.splits dest: step)
qed

lemma stringify_mono:
  "fst (CSSSelector_stringify n this h) = Some y \<Longrightarrow> n \<le> m \<Longrightarrow> fst (CSSSelector_stringify m this h) = Some y"
  by (induction m) (auto simp: le_Suc_eq dest: stringify_mono_Suc simp del: CSSSelector_stringify.simps)

lemma finite_edges: "finite (edges h)"
proof -
  have "edges h \<subseteq> {..<length h} \<times> (\<Union>r\<in>{..<length h}. snd ` set (combined (h ! r)))"
    by (auto simp: edges_def)
  moreover have "finite ({..<length h} \<times> (\<Union>r\<in>{..<length h}. snd ` set (combined (h ! r))))"
    by simp
  ultimately show ?thesis by (rule finite_subset)
qed

lemma common_fuel:
  assumes "\<forall>x\<in>set xs. \<exists>n y. fst (CSSSelector_stringify n (snd x) h) = Some y"
  shows "\<exists>N. \<forall>x\<in>set xs. \<exists>y. fst (CSSSelector_stringify N (snd x) h) = Some y"
  using assms
proof (induction xs)
  case Nil
  show ?case by simp
next
  case (Cons x xs)
  then obtain N where N: "\<forall>x\<in>set xs. \<exists>y. fst (CSSSelector_stringify N (snd x) h) = Some y"
    by auto
  from Cons.prems obtain n y where n: "fst (CSSSelector_stringify n (snd x) h) = Some y"
    by auto
  have "fst (CSSSelector_stringify (max n N) (snd x) h) = Some y"
    using n by (rule stringify_mono) simp
  moreover have "\<exists>y. fst (CSSSelector_stringify (max n N) (snd x') h) = Some y"
    if "x' \<in> set xs" for x'
  proof -
    from N that obtain y' where "fst (CSSSelector_stringify N (snd x') h) = Some y'"
      by blast
    then have "fst (CSSSelector_stringify (max n N) (snd x') h) = Some y'"
      by (rule stringify_mono) simp
    then show ?thesis ..
  qed
  ultimately have
    "\<forall>x'\<in>set (x # xs). \<exists>y. fst (CSSSelector_stringify (max n N) (snd x') h) = Some y"
    by auto
  then show ?case ..
qed

lemma forEach_combined_returns:
  assumes "\<And>r. snd (call r h) = h"
    and "\<forall>x\<in>set xs. \<exists>y. fst (call (snd x) h) = Some y"
  shows "\<exists>z. fst (forEach_combined call xs res h) = Some z"
  using assms(2)
proof (induction xs arbitrary: res)
  case Nil
  show ?case by simp
next
  case (Cons x xs)
  then show ?case
    by (auto simp: forEach_combined_Cons_fst [of call h, OF assms(1)]
        simp del: forEach_combined.simps split: option.splits sum.splits)
qed

lemma finite_edges_from: "finite (edges_from h this)"
  by (rule finite_subset [OF _ finite_edges]) (auto simp: edges_from_def)

lemma edges_from_subset: "edges_from h this \<subseteq> edges h"
  by (auto simp: edges_from_def)

lemma stringify_returns_acyclic:
  assumes "acyclic (edges_from h this)"
  shows "\<exists>n y. fst (CSSSelector_stringify n this h) = Some y"
proof -
  have wf: "wf ((edges_from h this)\<inverse>)"
    using finite_edges_from assms by (rule finite_acyclic_wf_converse)
  have "(this, r) \<in> (edges h)\<^sup>* \<longrightarrow> (\<exists>n y. fst (CSSSelector_stringify n r h) = Some y)" for r
    using wf
  proof (induction r rule: wf_induct_rule)
    case (less r)
    show ?case
    proof
      assume reach: "(this, r) \<in> (edges h)\<^sup>*"
      show "\<exists>n y. fst (CSSSelector_stringify n r h) = Some y"
      proof (cases "lookup h r")
        case None
        then have "fst (CSSSelector_stringify (Suc 0) r h) = Some (Inl TypeError)"
          by simp
        then show ?thesis by blast
      next
        case (Some obj)
        then have edge: "\<forall>x\<in>set (combined obj). (r, snd x) \<in> edges h"
          by (auto simp: edges_def lookup_Some_iff)
        have "\<forall>x\<in>set (combined obj). \<exists>n y. fst (CSSSelector_stringify n (snd x) h) = Some y"
        proof
          fix x
          assume "x \<in> set (combined obj)"
          with edge have e: "(r, snd x) \<in> edges h" by blast
          with reach have "(snd x, r) \<in> (edges_from h this)\<inverse>"
            by (simp add: edges_from_def)
          moreover from reach e have "(this, snd x) \<in> (edges h)\<^sup>*"
            by (rule rtrancl_into_rtrancl)
          ultimately show "\<exists>n y. fst (CSSSelector_stringify n (snd x) h) = Some y"
            using less.IH by blast
        qed
        then obtain N where
          "\<forall>x\<in>set (combined obj). \<exists>y. fst (CSSSelector_stringify N (snd x) h) = Some y"
          using common_fuel by blast
        then have
          "\<exists>z. fst (forEach_combined (CSSSelector_stringify N) (combined obj) res h) = Some z"
          for res
          by (intro forEach_combined_returns stringify_store)
        then have "\<exists>y. fst (CSSSelector_stringify (Suc N) r h) = Some y"
          unfolding stringify_Suc_fst using Some
          by (auto split: option.splits sum.splits)
        then show ?thesis by blast
      qed
    qed
  qed
  then show ?thesis by blast
qed

lemma forEach_combined_no_error:
  assumes "\<And>r. snd (call r h) = h"
    and "\<forall>x\<in>set xs. fst (call (snd x) h) \<noteq> Some (Inl e)"
  shows "fst (forEach_combined call xs res h) \<noteq> Some (Inl e)"
  using assms(2)
proof (induction xs arbitrary: res)
  case Nil
  show ?case by simp
next
  case (Cons x xs)
  then show ?case
    by (auto simp: forEach_combined_Cons_fst [of call h, OF assms(1)]
        simp del: forEach_combined.simps split: option.splits sum.splits)
qed

lemma closed_storeD:
  "closed_store h \<Longrightarrow> lookup h r = Some obj \<Longrightarrow> x \<in> set (combined obj) \<Longrightarrow> snd x < length h"
  by (auto simp: closed_store_def list_all_iff lookup_Some_iff)

lemma stringify_no_error:
  assumes "closed_store h"
  shows "this < length h \<Longrightarrow> fst (CSSSelector_stringify n this h) \<noteq> Some (Inl e)"
proof (induction n arbitrary: this)
  case 0
  show ?case by simp
next
  case (Suc n)
  then obtain obj where obj: "lookup h this = Some obj"
    by (simp add: lookup_def)
  have "\<forall>x\<in>set (combined obj). fst (CSSSelector_stringify n (snd x) h) \<noteq> Some (Inl e)"
    using closed_storeD [OF assms obj] Suc.IH by blast
  then have "fst (forEach_combined (CSSSelector_stringify n) (combined obj) res h) \<noteq> Some (Inl e)"
    for res
    by (intro forEach_combined_no_error stringify_store)
  then show ?case
    unfolding stringify_Suc_fst using obj
    by (auto split: option.splits sum.splits)
qed

lemma forEach_combined_stuck:
  assumes "\<And>r. snd (call r h) = h"
    and "x \<in> set xs" and "fst (call (snd x) h) = None"
    and "\<forall>y\<in>set xs. \<forall>e. fst (call (snd y) h) \<noteq> Some (Inl e)"
  shows "fst (forEach_combined call xs res h) = None"
  using assms(2,4)
proof (induction xs arbitrary: res)
  case Nil
  then show ?case by simp
next
  case (Cons y ys)
  then show ?case
    using assms(3)
    by (auto simp: forEach_combined_Cons_fst [of call h, OF assms(1)]
        simp del: forEach_combined.simps split: option.splits sum.splits)
qed

lemma stringify_self_reference:
  assumes "closed_store h" and "lookup h this = Some obj" and "x \<in> set (combined obj)" and "snd x = this"
  shows "fst (CSSSelector_stringify n this h) = None"
proof (induction n)
  case 0
  show ?case by simp
next
  case (Suc n)
  have "\<forall>y\<in>set (combined obj). \<forall>e. fst (CSSSelector_stringify n (snd y) h) \<noteq> Some (Inl e)"
    using closed_storeD [OF assms(1,2)] stringify_no_error [OF assms(1)] by blast
  then have "fst (forEach_combined (CSSSelector_stringify n) (combined obj) res h) = None" for res
    using assms(3,4) Suc.IH
    by (intro forEach_combined_stuck [where x = x] stringify_store) simp_all
  then show ?case
    unfolding stringify_Suc_fst using assms(2) by simp
qed

lemma stringify_shape:
  assumes "lookup h this = Some obj" and "fst (CSSSelector_stringify n this h) = Some (Inr s)"
  shows "\<exists>others. list_all2 (\<lambda>entry other.
            fst (CSSSelector_stringify (n - 1) (snd entry) h) = Some (Inr other)) (combined obj) others
          \<and> s = spec_stringify obj others"
proof (cases n)
  case 0
  with assms(2) show ?thesis by simp
next
  case (Suc k)
  from assms(2) obtain body where
    body: "fst (forEach_combined (CSSSelector_stringify k) (combined obj)
        (tag obj @ idValue obj @ concat (classes obj) @ concat (attributes obj)
          @ concat (pseudoClasses obj)) h) = Some (Inr body)"
    and s: "s = body @ pseudoElementValue obj"
    unfolding Suc stringify_Suc_fst using assms(1)
    by (auto split: option.splits sum.splits)
  from body obtain others where
    "list_all2 (\<lambda>x t. fst (CSSSelector_stringify k (snd x) h) = Some (Inr t)) (combined obj) others"
    and "body = (tag obj @ idValue obj @ concat (classes obj) @ concat (attributes obj)
          @ concat (pseudoClasses obj)) @ concat (map2 spec_segment (map fst (combined obj)) others)"
    using forEach_combined_Inr [of "CSSSelector_stringify k" h, OF stringify_store] by blast
  then show ?thesis
    using s by (auto simp: Suc spec_stringify_def)
qed

lemma stringify_closed_acyclic:
  assumes "closed_store h" and "acyclic (edges_from h this)" and "this < length h"
  shows "\<exists>n s. fst (CSSSelector_stringify n this h) = Some (Inr s)"
proof -
  from assms(2) obtain n y where y: "fst (CSSSelector_stringify n this h) = Some y"
    using stringify_returns_acyclic by blast
  then obtain s where "y = Inr s"
    using stringify_no_error [OF assms(1,3), of n] by (cases y) auto
  with y show ?thesis by blast
qed

lemma closed_store_combine:
  assumes "closed_store h" and "lookup h l = Some obj" and "r < length h"
  shows "closed_store (h[l := obj\<lparr>combined := combined obj @ [(c, r)]\<rparr>])"
  using assms
  by (auto simp: closed_store_def list_all_length lookup_Some_iff nth_list_update nth_append)

lemma zip_segments_split:
  assumes "length xs = length ys" and "i < length xs"
  shows "concat (map2 f xs ys) =
    concat (map2 f (take i xs) (take i ys)) @ f (xs ! i) (ys ! i)
      @ concat (map2 f (drop (Suc i) xs) (drop (Suc i) ys))"
proof -
  have "i < length (zip xs ys)"
    using assms by simp
  then have "zip xs ys = take i (zip xs ys) @ (zip xs ys ! i) # drop (Suc i) (zip xs ys)"
    by (rule id_take_nth_drop)
  then have "zip xs ys = zip (take i xs) (take i ys) @ (xs ! i, ys ! i)
      # zip (drop (Suc i) xs) (drop (Suc i) ys)"
    using assms by (simp add: take_zip drop_zip)
  then show ?thesis
    by simp
qed

lemma add_fragment_success:
  assumes "add_fragment k v this h = (Inr r, h')" and "lookup h this = Some obj"
  shows "r = this \<and> h' = h[this := with_fragment k v obj]"
  using assms
  by (cases k) (auto simp: method_defs split: if_splits)

subsection \<open>The example stores\<close>

lemma example_space_eq:
  "example_space = (Inr 0, [CSSSelector_constructor\<lparr>tag := ''a'', combined := [('' '', 1)]\<rparr>,
                            CSSSelector_constructor\<lparr>tag := ''b''\<rparr>])"
  by (simp add: example_space_def chain_def builder_defs cssSelectorBuilder_combine_def
      CSSSelector_combineWith_def CSSSelector_element_def CSSSelector_constructor_def
      truthy_def lookup_def)

lemma example_space_stringify:
  "CSSSelector_stringify 2 0 (snd example_space) = (Some (Inr ''a   b''), snd example_space)"
  by (simp add: example_space_eq numeral_2_eq_2 lookup_def CSSSelector_constructor_def)

lemma edges_example_space: "edges (snd example_space) = {(0, 1)}"
  by (auto simp: example_space_eq edges_def less_Suc_eq CSSSelector_constructor_def)

lemma closed_example_space: "closed_store (snd example_space)"
  by (simp add: example_space_eq closed_store_def CSSSelector_constructor_def)

lemma acyclic_example_space: "acyclic (edges_from (snd example_space) 0)"
proof -
  have "acyclic ({} :: (ref \<times> ref) set)"
    by (simp add: acyclic_def)
  then have "acyclic (edges (snd example_space))"
    by (simp add: edges_example_space)
  then show ?thesis
    by (rule acyclic_subset) (rule edges_from_subset)
qed

lemma example_space_lookup:
  "lookup (snd example_space) 0
     = Some (CSSSelector_constructor\<lparr>tag := ''a'', combined := [('' '', 1)]\<rparr>)"
  by (simp add: example_space_eq lookup_def)

lemma example_div_p_eq:
  "example_div_p = (Inr 1, [CSSSelector_constructor\<lparr>tag := ''div''\<rparr>,
                            CSSSelector_constructor\<lparr>tag := ''p''\<rparr>])"
  by (simp add: example_div_p_def chain_def builder_defs CSSSelector_element_def
      CSSSelector_constructor_def truthy_def lookup_def)

subsection \<open>The output of stringify\<close>

text \<open>
  C1. Whenever \<^verbatim>\<open>stringify()\<close> returns a string on a selector, the string is the tag,
  the id, the classes, the attributes and the pseudo-classes in insertion order, then one
  segment for each entry of the combination list in the order of the list, each built
  from the string its right operand returns, and the pseudo-element last of all, with
  nothing else. In a closed store where the graph of the references that the selector
  reaches is acyclic, the call does return a string.
\<close>

theorem stringify_output:
  assumes "lookup h this = Some obj"
  shows "(\<forall>n s. fst (CSSSelector_stringify n this h) = Some (Inr s) \<longrightarrow>
            (\<exists>others. list_all2 (\<lambda>entry other.
                \<exists>m. fst (CSSSelector_stringify m (snd entry) h) = Some (Inr other))
                (combined obj) others
              \<and> s = spec_stringify obj others))
         \<and> (closed_store h \<and> acyclic (edges_from h this) \<longrightarrow>
              (\<exists>n s. fst (CSSSelector_stringify n this h) = Some (Inr s)))"
proof (intro conjI allI impI)
  fix n s
  assume "fst (CSSSelector_stringify n this h) = Some (Inr s)"
  from stringify_shape [OF assms this] obtain others where
    o: "list_all2 (\<lambda>entry other.
            fst (CSSSelector_stringify (n - 1) (snd entry) h) = Some (Inr other)) (combined obj) others"
    and s: "s = spec_stringify obj others" by blast
  from o have "list_all2 (\<lambda>entry other.
                \<exists>m. fst (CSSSelector_stringify m (snd entry) h) = Some (Inr other))
                (combined obj) others"
    by (rule list_all2_mono) blast
  with s show "\<exists>others. list_all2 (\<lambda>entry other.
                \<exists>m. fst (CSSSelector_stringify m (snd entry) h) = Some (Inr other))
                (combined obj) others
              \<and> s = spec_stringify obj others" by blast
next
  assume "closed_store h \<and> acyclic (edges_from h this)"
  then show "\<exists>n s. fst (CSSSelector_stringify n this h) = Some (Inr s)"
    using assms stringify_closed_acyclic by (simp add: lookup_Some_iff)
qed

theorem stringify_output_witness:
  "lookup (snd example_space) 0
     = Some (CSSSelector_constructor\<lparr>tag := ''a'', combined := [('' '', 1)]\<rparr>)
   \<and> fst (CSSSelector_stringify 2 0 (snd example_space)) = Some (Inr ''a   b'')
   \<and> (\<exists>others. list_all2 (\<lambda>entry other.
           \<exists>m. fst (CSSSelector_stringify m (snd entry) (snd example_space)) = Some (Inr other))
           [('' '', 1)] others
        \<and> ''a   b'' = spec_stringify
             (CSSSelector_constructor\<lparr>tag := ''a'', combined := [('' '', 1)]\<rparr>) others)
   \<and> closed_store (snd example_space) \<and> acyclic (edges_from (snd example_space) 0)
   \<and> (\<exists>n s. fst (CSSSelector_stringify n 0 (snd example_space)) = Some (Inr s))"
proof -
  note t = stringify_output [OF example_space_lookup]
  have s: "fst (CSSSelector_stringify 2 0 (snd example_space)) = Some (Inr ''a   b'')"
    by (simp add: example_space_stringify)
  from t s have "\<exists>others. list_all2 (\<lambda>entry other.
           \<exists>m. fst (CSSSelector_stringify m (snd entry) (snd example_space)) = Some (Inr other))
           (combined (CSSSelector_constructor\<lparr>tag := ''a'', combined := [('' '', 1)]\<rparr>)) others
        \<and> ''a   b'' = spec_stringify
             (CSSSelector_constructor\<lparr>tag := ''a'', combined := [('' '', 1)]\<rparr>) others"
    by blast
  moreover from t have "\<exists>n s. fst (CSSSelector_stringify n 0 (snd example_space)) = Some (Inr s)"
    using closed_example_space acyclic_example_space by blast
  ultimately show ?thesis
    using example_space_lookup s closed_example_space acyclic_example_space by simp
qed

text \<open>
  C4, as the code has it. In a string that \<^verbatim>\<open>stringify()\<close> returns, the entry \<open>i\<close> of the
  combination list is rendered as one space, the combinator, one space and the string
  that its right operand returns, between what precedes and what follows it. When the
  combinator is itself one space, three adjacent spaces separate the two operands.
\<close>

theorem combined_entry_rendering:
  assumes "lookup h this = Some obj"
    and "fst (CSSSelector_stringify n this h) = Some (Inr s)"
    and "i < length (combined obj)"
  shows "\<exists>others.
      list_all2 (\<lambda>entry other. \<exists>m. fst (CSSSelector_stringify m (snd entry) h) = Some (Inr other))
        (combined obj) others
      \<and> s = rendered_before obj others i
            @ '' '' @ fst (combined obj ! i) @ '' '' @ others ! i
            @ rendered_after obj others i
      \<and> (fst (combined obj ! i) = '' '' \<longrightarrow>
           s = rendered_before obj others i @ ''   '' @ others ! i @ rendered_after obj others i)"
proof -
  from stringify_shape [OF assms(1,2)] obtain others where
    o: "list_all2 (\<lambda>entry other.
            fst (CSSSelector_stringify (n - 1) (snd entry) h) = Some (Inr other)) (combined obj) others"
    and s: "s = spec_stringify obj others" by blast
  from o have len: "length (map fst (combined obj)) = length others"
    by (simp add: list_all2_lengthD)
  from o have all: "list_all2 (\<lambda>entry other.
                \<exists>m. fst (CSSSelector_stringify m (snd entry) h) = Some (Inr other))
                (combined obj) others"
    by (rule list_all2_mono) blast
  have "concat (map2 spec_segment (map fst (combined obj)) others) =
      concat (map2 spec_segment (take i (map fst (combined obj))) (take i others))
      @ spec_segment (map fst (combined obj) ! i) (others ! i)
      @ concat (map2 spec_segment (drop (Suc i) (map fst (combined obj))) (drop (Suc i) others))"
    using len assms(3) by (intro zip_segments_split) simp_all
  then have "s = rendered_before obj others i
            @ '' '' @ fst (combined obj ! i) @ '' '' @ others ! i
            @ rendered_after obj others i"
    using s assms(3)
    by (simp add: spec_stringify_def spec_segment_def rendered_before_def rendered_after_def
        take_map drop_map)
  with all show ?thesis
    by (intro exI [of _ others]) simp
qed

theorem combined_entry_rendering_witness:
  "lookup (snd example_space) 0
     = Some (CSSSelector_constructor\<lparr>tag := ''a'', combined := [('' '', 1)]\<rparr>)
   \<and> fst (CSSSelector_stringify 2 0 (snd example_space)) = Some (Inr ''a   b'')
   \<and> (\<exists>others. ''a   b'' =
         rendered_before (CSSSelector_constructor\<lparr>tag := ''a'', combined := [('' '', 1)]\<rparr>) others 0
         @ ''   '' @ others ! 0
         @ rendered_after (CSSSelector_constructor\<lparr>tag := ''a'', combined := [('' '', 1)]\<rparr>) others 0)"
proof -
  have s: "fst (CSSSelector_stringify 2 0 (snd example_space)) = Some (Inr ''a   b'')"
    by (simp add: example_space_stringify)
  have "0 < length (combined (CSSSelector_constructor\<lparr>tag := ''a'', combined := [('' '', 1)]\<rparr>))"
    by simp
  from combined_entry_rendering [OF example_space_lookup s this]
  have "\<exists>others. ''a   b'' =
         rendered_before (CSSSelector_constructor\<lparr>tag := ''a'', combined := [('' '', 1)]\<rparr>) others 0
         @ ''   '' @ others ! 0
         @ rendered_after (CSSSelector_constructor\<lparr>tag := ''a'', combined := [('' '', 1)]\<rparr>) others 0"
    by auto
  then show ?thesis
    using example_space_lookup s by simp
qed

text \<open>
  C4 as stated fails on \<^verbatim>\<open>combine(element('a'), ' ', element('b'))\<close>: the operands \<^verbatim>\<open>a\<close>
  and \<^verbatim>\<open>b\<close> are three spaces apart, not two.
\<close>

theorem combined_entry_rendering_counterexample:
  "fst (CSSSelector_stringify 2 0 (snd example_space)) = Some (Inr (''a'' @ ''   '' @ ''b''))
   \<and> fst (CSSSelector_stringify 1 1 (snd example_space)) = Some (Inr ''b'')
   \<and> fst (CSSSelector_stringify 2 0 (snd example_space)) \<noteq> Some (Inr (''a'' @ ''  '' @ ''b''))"
proof -
  have "fst (CSSSelector_stringify 1 1 (snd example_space)) = Some (Inr ''b'')"
    by (simp add: example_space_eq lookup_def CSSSelector_constructor_def)
  then show ?thesis
    by (simp add: example_space_stringify)
qed

text \<open>
  C7. \<^verbatim>\<open>combine(left, combinator, right)\<close> stores the reference \<open>right\<close>. When a fragment
  is added to \<open>right\<close> after the combination, the last entry of the combination list of
  \<open>left\<close> still refers to \<open>right\<close>, which now holds the fragment, and every string that
  \<^verbatim>\<open>left.stringify()\<close> returns ends its segments with the string of \<open>right\<close> as it is
  then, fragment included. In a closed store where the graph of the references that
  \<open>left\<close> reaches is acyclic, the call returns a string.
\<close>

theorem deferred_stringification:
  assumes "left \<noteq> right" and "lookup h left = Some L" and "lookup h right = Some R"
    and "add_fragment k v right (snd (cssSelectorBuilder_combine left c right h)) = (Inr right, h2)"
  shows "lookup h2 left = Some (L\<lparr>combined := combined L @ [(c, right)]\<rparr>)
     \<and> lookup h2 right = Some (with_fragment k v R)
     \<and> (\<forall>n s. fst (CSSSelector_stringify n left h2) = Some (Inr s) \<longrightarrow>
          (\<exists>others others_r.
             length others = length (combined L)
             \<and> (\<exists>m. fst (CSSSelector_stringify m right h2)
                      = Some (Inr (spec_stringify (with_fragment k v R) others_r)))
             \<and> s = spec_stringify (L\<lparr>combined := combined L @ [(c, right)]\<rparr>)
                     (others @ [spec_stringify (with_fragment k v R) others_r])))
     \<and> (closed_store h2 \<and> acyclic (edges_from h2 left) \<longrightarrow>
          (\<exists>n s. fst (CSSSelector_stringify n left h2) = Some (Inr s)))"
proof -
  let ?L = "L\<lparr>combined := combined L @ [(c, right)]\<rparr>"
  let ?R = "with_fragment k v R"
  let ?h1 = "h[left := ?L]"
  have len: "left < length h" "right < length h"
    using assms(2,3) by (simp_all add: lookup_Some_iff)
  have h1: "snd (cssSelectorBuilder_combine left c right h) = ?h1"
    using assms(2) by (simp add: cssSelectorBuilder_combine_def CSSSelector_combineWith_def)
  have "lookup ?h1 right = Some R"
    using assms(1,3) by (simp add: lookup_Some_iff)
  with assms(4) have h2: "h2 = ?h1[right := ?R]"
    unfolding h1 by (simp add: add_fragment_success)
  have left: "lookup h2 left = Some ?L"
    using assms(1) len by (simp add: h2 lookup_def)
  have right: "lookup h2 right = Some ?R"
    using len by (simp add: h2 lookup_def)
  have shape: "\<exists>others others_r.
             length others = length (combined L)
             \<and> (\<exists>m. fst (CSSSelector_stringify m right h2)
                      = Some (Inr (spec_stringify ?R others_r)))
             \<and> s = spec_stringify ?L (others @ [spec_stringify ?R others_r])"
    if s: "fst (CSSSelector_stringify n left h2) = Some (Inr s)" for n s
  proof -
    from stringify_shape [OF left s] obtain all_others where
      o: "list_all2 (\<lambda>entry other.
            fst (CSSSelector_stringify (n - 1) (snd entry) h2) = Some (Inr other))
            (combined L @ [(c, right)]) all_others"
      and s': "s = spec_stringify ?L all_others" by auto
    from o obtain others t where
      split: "all_others = others @ [t]" "length others = length (combined L)"
      and t: "fst (CSSSelector_stringify (n - 1) right h2) = Some (Inr t)"
      by (auto simp: list_all2_append1 list_all2_Cons1)
    from stringify_shape [OF right t] obtain others_r where
      "t = spec_stringify ?R others_r" by blast
    with split s' t show ?thesis by blast
  qed
  have "\<exists>n s. fst (CSSSelector_stringify n left h2) = Some (Inr s)"
    if "closed_store h2 \<and> acyclic (edges_from h2 left)"
    using that len stringify_closed_acyclic [of h2 left] by (simp add: h2)
  with left right shape show ?thesis by blast
qed

theorem deferred_stringification_witness:
  "lookup (snd example_div_p) 0 = Some (CSSSelector_constructor\<lparr>tag := ''div''\<rparr>)
   \<and> lookup (snd example_div_p) 1 = Some (CSSSelector_constructor\<lparr>tag := ''p''\<rparr>)
   \<and> fst (CSSSelector_stringify 1 1 (snd (cssSelectorBuilder_combine 0 ''+'' 1 (snd example_div_p))))
       = Some (Inr ''p'')
   \<and> add_fragment Class ''late'' 1 (snd (cssSelectorBuilder_combine 0 ''+'' 1 (snd example_div_p)))
       = (Inr 1, [CSSSelector_constructor\<lparr>tag := ''div'', combined := [(''+'', 1)]\<rparr>,
                  CSSSelector_constructor\<lparr>tag := ''p'', classes := [''.late'']\<rparr>])
   \<and> lookup [CSSSelector_constructor\<lparr>tag := ''div'', combined := [(''+'', 1)]\<rparr>,
              CSSSelector_constructor\<lparr>tag := ''p'', classes := [''.late'']\<rparr>] 1
       = Some (with_fragment Class ''late'' (CSSSelector_constructor\<lparr>tag := ''p''\<rparr>))
   \<and> fst (CSSSelector_stringify 2 0
            [CSSSelector_constructor\<lparr>tag := ''div'', combined := [(''+'', 1)]\<rparr>,
             CSSSelector_constructor\<lparr>tag := ''p'', classes := [''.late'']\<rparr>])
       = Some (Inr ''div + p.late'')"
proof -
  have l: "lookup (snd example_div_p) 0 = Some (CSSSelector_constructor\<lparr>tag := ''div''\<rparr>)"
    and r: "lookup (snd example_div_p) 1 = Some (CSSSelector_constructor\<lparr>tag := ''p''\<rparr>)"
    by (simp_all add: example_div_p_eq lookup_def)
  have f: "add_fragment Class ''late'' 1
      (snd (cssSelectorBuilder_combine 0 ''+'' 1 (snd example_div_p)))
       = (Inr 1, [CSSSelector_constructor\<lparr>tag := ''div'', combined := [(''+'', 1)]\<rparr>,
                  CSSSelector_constructor\<lparr>tag := ''p'', classes := [''.late'']\<rparr>])"
    by (simp add: example_div_p_eq cssSelectorBuilder_combine_def CSSSelector_combineWith_def
        CSSSelector_class_def lookup_def truthy_def CSSSelector_constructor_def)
  have "(0::nat) \<noteq> 1" by simp
  from deferred_stringification [OF this l r f]
  have "lookup [CSSSelector_constructor\<lparr>tag := ''div'', combined := [(''+'', 1)]\<rparr>,
              CSSSelector_constructor\<lparr>tag := ''p'', classes := [''.late'']\<rparr>] 1
       = Some (with_fragment Class ''late'' (CSSSelector_constructor\<lparr>tag := ''p''\<rparr>))"
    by blast
  moreover have "fst (CSSSelector_stringify 1 1
      (snd (cssSelectorBuilder_combine 0 ''+'' 1 (snd example_div_p)))) = Some (Inr ''p'')"
    by (simp add: example_div_p_eq cssSelectorBuilder_combine_def CSSSelector_combineWith_def
        lookup_def CSSSelector_constructor_def)
  moreover have "fst (CSSSelector_stringify 2 0
            [CSSSelector_constructor\<lparr>tag := ''div'', combined := [(''+'', 1)]\<rparr>,
             CSSSelector_constructor\<lparr>tag := ''p'', classes := [''.late'']\<rparr>])
       = Some (Inr ''div + p.late'')"
    by (simp add: numeral_2_eq_2 lookup_def CSSSelector_constructor_def)
  ultimately show ?thesis
    using l r f by simp
qed

text \<open>
  C8. \<^verbatim>\<open>stringify()\<close> leaves the store, and so every field of every selector, as it
  found it; a second call right after the first has the same outcome, and when two
  consecutive calls both return, they return the same string.
\<close>

theorem stringify_pure:
  "snd (CSSSelector_stringify n this h) = h
   \<and> fst (CSSSelector_stringify n this (snd (CSSSelector_stringify n this h)))
       = fst (CSSSelector_stringify n this h)
   \<and> (fst (CSSSelector_stringify n this h) = Some a
        \<and> fst (CSSSelector_stringify m this (snd (CSSSelector_stringify n this h))) = Some b
      \<longrightarrow> a = b)"
proof -
  have "a = b" if a: "fst (CSSSelector_stringify n this h) = Some a"
    and b: "fst (CSSSelector_stringify m this h) = Some b"
  proof -
    have "fst (CSSSelector_stringify (max n m) this h) = Some a"
      using a by (rule stringify_mono) simp
    moreover have "fst (CSSSelector_stringify (max n m) this h) = Some b"
      using b by (rule stringify_mono) simp
    ultimately show ?thesis by simp
  qed
  then show ?thesis
    by (simp add: stringify_store)
qed

theorem stringify_pure_witness:
  "fst (CSSSelector_stringify 2 0 (snd example_space)) = Some (Inr ''a   b'')
   \<and> snd (CSSSelector_stringify 2 0 (snd example_space)) = snd example_space
   \<and> fst (CSSSelector_stringify 3 0 (snd (CSSSelector_stringify 2 0 (snd example_space))))
       = Some (Inr ''a   b'')"
proof -
  have a: "fst (CSSSelector_stringify 2 0 (snd example_space)) = Some (Inr ''a   b'')"
    by (simp add: example_space_stringify)
  obtain b where b: "fst (CSSSelector_stringify 3 0
      (snd (CSSSelector_stringify 2 0 (snd example_space)))) = Some b"
    by (simp add: example_space_stringify example_space_eq eval_nat_numeral lookup_def
        CSSSelector_constructor_def)
  from stringify_pure [of 2 0 "snd example_space" "Inr ''a   b''" 3 b] a b
  show ?thesis by simp
qed

subsection \<open>Termination of stringify\<close>

text \<open>
  C10. When the graph of the references that a selector reaches is acyclic,
  \<^verbatim>\<open>stringify()\<close> returns on it (a string, when the store is closed), and a call that
  returns a string has made, for each entry of the combination list, one call of a depth
  one less on the operand of the entry. \<^verbatim>\<open>combineWith\<close> checks nothing: it accepts any
  reference as the selector to combine with, the receiver itself too, and on a selector
  combined with itself, in a closed store, \<^verbatim>\<open>stringify()\<close> returns with no amount of fuel.
\<close>

theorem stringify_termination:
  "(acyclic (edges_from h this) \<longrightarrow> (\<exists>n y. fst (CSSSelector_stringify n this h) = Some y))
   \<and> (acyclic (edges_from h this) \<and> closed_store h \<and> this < length h \<longrightarrow>
        (\<exists>n s. fst (CSSSelector_stringify n this h) = Some (Inr s)))
   \<and> (lookup h this = Some obj \<and> fst (CSSSelector_stringify (Suc k) this h) = Some (Inr s) \<longrightarrow>
        (\<exists>others. list_all2 (\<lambda>entry other.
            fst (CSSSelector_stringify k (snd entry) h) = Some (Inr other)) (combined obj) others
          \<and> s = spec_stringify obj others))
   \<and> (lookup h this = Some obj \<longrightarrow>
        CSSSelector_combineWith c selector this h
          = (Inr this, h[this := obj\<lparr>combined := combined obj @ [(c, selector)]\<rparr>]))
   \<and> (closed_store h \<and> lookup h this = Some obj \<longrightarrow>
        (\<forall>n. fst (CSSSelector_stringify n this (snd (CSSSelector_combineWith c this this h))) = None))"
proof (intro conjI impI allI)
  assume "acyclic (edges_from h this)"
  then show "\<exists>n y. fst (CSSSelector_stringify n this h) = Some y"
    by (rule stringify_returns_acyclic)
next
  assume "acyclic (edges_from h this) \<and> closed_store h \<and> this < length h"
  then show "\<exists>n s. fst (CSSSelector_stringify n this h) = Some (Inr s)"
    using stringify_closed_acyclic by blast
next
  assume "lookup h this = Some obj \<and> fst (CSSSelector_stringify (Suc k) this h) = Some (Inr s)"
  then show "\<exists>others. list_all2 (\<lambda>entry other.
            fst (CSSSelector_stringify k (snd entry) h) = Some (Inr other)) (combined obj) others
          \<and> s = spec_stringify obj others"
    using stringify_shape [of h this obj "Suc k" s]
    by (simp del: CSSSelector_stringify.simps)
next
  assume "lookup h this = Some obj"
  then show "CSSSelector_combineWith c selector this h
          = (Inr this, h[this := obj\<lparr>combined := combined obj @ [(c, selector)]\<rparr>])"
    by (simp add: CSSSelector_combineWith_def)
next
  fix n
  assume a: "closed_store h \<and> lookup h this = Some obj"
  let ?obj' = "obj\<lparr>combined := combined obj @ [(c, this)]\<rparr>"
  let ?h' = "h[this := ?obj']"
  from a have len: "this < length h"
    by (simp add: lookup_Some_iff)
  have h': "snd (CSSSelector_combineWith c this this h) = ?h'"
    using a by (simp add: CSSSelector_combineWith_def)
  have "closed_store ?h'"
    using a len by (intro closed_store_combine) simp_all
  moreover have "lookup ?h' this = Some ?obj'"
    using len by (simp add: lookup_def)
  moreover have "(c, this) \<in> set (combined ?obj')"
    by simp
  ultimately have "fst (CSSSelector_stringify n this ?h') = None"
    by (rule stringify_self_reference) simp
  then show "fst (CSSSelector_stringify n this (snd (CSSSelector_combineWith c this this h))) = None"
    by (simp only: h')
qed

theorem stringify_termination_witness:
  "acyclic (edges_from (snd example_space) 0) \<and> closed_store (snd example_space)
   \<and> (\<exists>n s. fst (CSSSelector_stringify n 0 (snd example_space)) = Some (Inr s))
   \<and> fst (CSSSelector_stringify (Suc 1) 0 (snd example_space)) = Some (Inr ''a   b'')
   \<and> (\<exists>others. list_all2 (\<lambda>entry other.
          fst (CSSSelector_stringify 1 (snd entry) (snd example_space)) = Some (Inr other))
          [('' '', 1)] others
        \<and> ''a   b'' = spec_stringify
             (CSSSelector_constructor\<lparr>tag := ''a'', combined := [('' '', 1)]\<rparr>) others)
   \<and> CSSSelector_combineWith ''+'' 0 0 (snd example_space)
       = (Inr 0, [CSSSelector_constructor\<lparr>tag := ''a'', combined := [('' '', 1), (''+'', 0)]\<rparr>,
                  CSSSelector_constructor\<lparr>tag := ''b''\<rparr>])
   \<and> (\<forall>n. fst (CSSSelector_stringify n 0
              (snd (CSSSelector_combineWith ''+'' 0 0 (snd example_space)))) = None)"
proof -
  note t = stringify_termination [of "snd example_space" 0
      "CSSSelector_constructor\<lparr>tag := ''a'', combined := [('' '', 1)]\<rparr>" 1 "''a   b''" "''+''" 0]
  have len: "0 < length (snd example_space)"
    by (simp add: example_space_eq)
  have s: "fst (CSSSelector_stringify (Suc 1) 0 (snd example_space)) = Some (Inr ''a   b'')"
    using example_space_stringify by (simp add: numeral_2_eq_2)
  from t len closed_example_space acyclic_example_space
  have "\<exists>n s. fst (CSSSelector_stringify n 0 (snd example_space)) = Some (Inr s)"
    by blast
  moreover note s
  moreover from t example_space_lookup s
  have "\<exists>others. list_all2 (\<lambda>entry other.
          fst (CSSSelector_stringify 1 (snd entry) (snd example_space)) = Some (Inr other))
          (combined (CSSSelector_constructor\<lparr>tag := ''a'', combined := [('' '', 1)]\<rparr>)) others
        \<and> ''a   b'' = spec_stringify
             (CSSSelector_constructor\<lparr>tag := ''a'', combined := [('' '', 1)]\<rparr>) others"
    by blast
  then have "\<exists>others. list_all2 (\<lambda>entry other.
          fst (CSSSelector_stringify 1 (snd entry) (snd example_space)) = Some (Inr other))
          [('' '', 1)] others
        \<and> ''a   b'' = spec_stringify
             (CSSSelector_constructor\<lparr>tag := ''a'', combined := [('' '', 1)]\<rparr>) others"
    by simp
  moreover from t example_space_lookup
  have "CSSSelector_combineWith ''+'' 0 0 (snd example_space)
       = (Inr 0, (snd example_space)[0 :=
           CSSSelector_constructor\<lparr>tag := ''a'', combined := [('' '', 1)]\<rparr>
             \<lparr>combined := combined (CSSSelector_constructor\<lparr>tag := ''a'', combined := [('' '', 1)]\<rparr>)
                @ [(''+'', 0)]\<rparr>])"
    by blast
  then have "CSSSelector_combineWith ''+'' 0 0 (snd example_space)
       = (Inr 0, [CSSSelector_constructor\<lparr>tag := ''a'', combined := [('' '', 1), (''+'', 0)]\<rparr>,
                  CSSSelector_constructor\<lparr>tag := ''b''\<rparr>])"
    by (simp add: example_space_eq)
  moreover from t example_space_lookup closed_example_space
  have "\<forall>n. fst (CSSSelector_stringify n 0
              (snd (CSSSelector_combineWith ''+'' 0 0 (snd example_space)))) = None"
    by blast
  ultimately show ?thesis
    using closed_example_space acyclic_example_space by blast
qed


end
